theory Spec2Isabelle
  imports Main "HOL-Library.AList"
begin

section \<open>The Research engine of batchflow (research.py)\<close>

text \<open>
  A shallow embedding of \<^verbatim>\<open>src/batchflow/research/research.py\<close>: the task queue
  \<^verbatim>\<open>DynamicQueue\<close>, the result store \<^verbatim>\<open>ResearchResults\<close> and the start of
  \<^verbatim>\<open>Research.run\<close>. Methods that mutate \<^verbatim>\<open>self\<close> take the object and return the
  updated one; a Python exception is a value of type \<open>error\<close>.
\<close>

datatype error = ValueError | NameError | KeyError
  | FileNotFoundError | FileExistsError | NotADirectoryError | IsADirectoryError

subsection \<open>Domain iterators\<close>

text \<open>
  The class \<^verbatim>\<open>Domain\<close> lives in \<^verbatim>\<open>domain.py\<close>, which is not among the sources.
  \<^verbatim>\<open>DynamicQueue\<close> uses it only through \<^verbatim>\<open>next(self.domain)\<close>, so the queue's
  functions take that operation as a parameter: \<open>nxt d\<close> is \<open>Some (c, d')\<close> when the
  iterator in state \<open>d\<close> yields the Configuration \<open>c\<close> and moves to \<open>d'\<close>, and
  \<open>None\<close> when it raises \<^verbatim>\<open>StopIteration\<close>.
\<close>

type_synonym ('d, 'c) domain_next = "'d \<Rightarrow> ('c \<times> 'd) option"

text \<open>
  Modelled from the spec: the iterator of a Domain of known finite size (\<^verbatim>\<open>domain.py\<close> is
  missing). The spec's Domain contract is the "iterable protocol (raises an exhaustion
  signal when no more configurations remain)" with \<^verbatim>\<open>.size\<close> the known task count.
  Such a Domain is the list of the Configurations it has yet to yield; its size is the
  length of that list.
\<close>

definition list_next :: "('c list, 'c) domain_next" where
  "list_next xs = (case xs of [] \<Rightarrow> None | x # rest \<Rightarrow> Some (x, rest))"

subsection \<open>DynamicQueue\<close>

text \<open>
  \<open>queue\<close> holds the items of the underlying \<^verbatim>\<open>JoinableQueue\<close> that have been put and
  not yet acknowledged with \<^verbatim>\<open>task_done\<close>, oldest first. An item is a task
  \<^verbatim>\<open>(task_id, configs)\<close> or the sentinel \<^verbatim>\<open>None\<close> of \<^verbatim>\<open>stop_workers\<close>. The counts
  \<^verbatim>\<open>n_tasks\<close> and \<^verbatim>\<open>n_branches\<close> only feed \<^verbatim>\<open>range\<close>, which is empty for a negative
  argument as it is for 0, so they are natural numbers here.
\<close>

record ('d, 'c) DynamicQueue =
  domain :: 'd
  n_branches :: nat
  queue :: "(nat \<times> 'c list) option list"
  withdrawn_tasks :: nat
  finished_tasks :: nat

definition init_queue :: "'d \<Rightarrow> nat \<Rightarrow> ('d, 'c) DynamicQueue" where
  "init_queue d b =
     \<lparr>domain = d, n_branches = b, queue = [], withdrawn_tasks = 0, finished_tasks = 0\<rparr>"

definition queue_put :: "(nat \<times> 'c list) option \<Rightarrow> ('d, 'c) DynamicQueue \<Rightarrow> ('d, 'c) DynamicQueue" where
  "queue_put item q = q\<lparr>queue := queue q @ [item]\<rparr>"

text \<open>
  The inner loop \<^verbatim>\<open>for _ in range(self.n_branches): branch_tasks.append(next(self.domain))\<close>.
  The result is the list built so far, the iterator's state, and whether
  \<^verbatim>\<open>StopIteration\<close> was raised.
\<close>

fun draw_branches ::
  "('d, 'c) domain_next \<Rightarrow> nat \<Rightarrow> 'd \<Rightarrow> 'c list \<Rightarrow> 'c list \<times> 'd \<times> bool" where
  "draw_branches nxt 0 d branch_tasks = (branch_tasks, d, False)"
| "draw_branches nxt (Suc k) d branch_tasks =
     (case nxt d of
        None \<Rightarrow> (branch_tasks, d, True)
      | Some (c, d') \<Rightarrow> draw_branches nxt k d' (branch_tasks @ [c]))"

text \<open>
  The outer loop \<^verbatim>\<open>for i in range(n_tasks)\<close> with its \<^verbatim>\<open>try\<close>/\<^verbatim>\<open>except StopIteration\<close>.
  Besides \<^verbatim>\<open>configs\<close> and the iterator's state it returns a record of the \<^verbatim>\<open>except\<close>
  branch: \<open>Some m\<close> when \<^verbatim>\<open>StopIteration\<close> was caught with \<open>m\<close> Configurations already
  in \<^verbatim>\<open>branch_tasks\<close>, \<open>None\<close> when the loop ran to its end. The code does not keep
  this value; it is here so that theorems can speak about the \<^verbatim>\<open>except\<close> branch.
\<close>

fun collect_configs ::
  "('d, 'c) domain_next \<Rightarrow> nat \<Rightarrow> nat \<Rightarrow> 'd \<Rightarrow> 'c list list \<Rightarrow> 'c list list \<times> 'd \<times> nat option" where
  "collect_configs nxt b 0 d configs = (configs, d, None)"
| "collect_configs nxt b (Suc i) d configs =
     (case draw_branches nxt b d [] of
        (branch_tasks, d', True) \<Rightarrow>
          (if length branch_tasks > 0 then configs @ [branch_tasks] else configs,
           d', Some (length branch_tasks))
      | (branch_tasks, d', False) \<Rightarrow> collect_configs nxt b i d' (configs @ [branch_tasks]))"

text \<open>
  \<^verbatim>\<open>for i, executor_configs in enumerate(configs): self.put((self.withdrawn_tasks + i, executor_configs))\<close>
\<close>

definition put_all :: "'c list list \<Rightarrow> ('d, 'c) DynamicQueue \<Rightarrow> ('d, 'c) DynamicQueue" where
  "put_all configs q =
     fold (\<lambda>(i, executor_configs) q'. queue_put (Some (withdrawn_tasks q' + i, executor_configs)) q')
       (enumerate 0 configs) q"

definition next_tasks ::
  "('d, 'c) domain_next \<Rightarrow> nat \<Rightarrow> ('d, 'c) DynamicQueue \<Rightarrow> nat \<times> ('d, 'c) DynamicQueue" where
  "next_tasks nxt n_tasks q =
     (case collect_configs nxt (n_branches q) n_tasks (domain q) [] of
        (configs, d', _) \<Rightarrow>
          (let q1 = put_all configs (q\<lparr>domain := d'\<rparr>);
               n = length configs
           in (n, q1\<lparr>withdrawn_tasks := withdrawn_tasks q1 + n\<rparr>)))"

definition stop_workers :: "nat \<Rightarrow> ('d, 'c) DynamicQueue \<Rightarrow> ('d, 'c) DynamicQueue" where
  "stop_workers n_workers q = ((queue_put None) ^^ n_workers) q"

text \<open>
  \<^verbatim>\<open>self.queue.join()\<close> blocks until every item that was put has been fetched and
  acknowledged by a consumer. The state in which it returns is the one with no
  outstanding item, whatever their number was. The consumers themselves
  (\<^verbatim>\<open>distributor.py\<close>) are not among the sources; a consumer that never acknowledges
  leaves the caller blocked, and no state follows.
\<close>

definition queue_join :: "('d, 'c) DynamicQueue \<Rightarrow> ('d, 'c) DynamicQueue" where
  "queue_join q = q\<lparr>queue := []\<rparr>"

definition join :: "('d, 'c) DynamicQueue \<Rightarrow> ('d, 'c) DynamicQueue" where
  "join q = (let q' = queue_join q in q'\<lparr>finished_tasks := finished_tasks q' + 1\<rparr>)"

definition in_progress :: "('d, 'c) DynamicQueue \<Rightarrow> bool" where
  "in_progress q = (withdrawn_tasks q \<noteq> finished_tasks q)"

text \<open>
  A caller of the queue: a sequence of \<^verbatim>\<open>next_tasks(n)\<close> and \<^verbatim>\<open>join()\<close> calls. \<open>run_ops\<close>
  returns the final state together with the values the \<^verbatim>\<open>next_tasks\<close> calls returned.
\<close>

datatype queue_op = NextTasks nat | Join

fun run_ops ::
  "('d, 'c) domain_next \<Rightarrow> queue_op list \<Rightarrow> ('d, 'c) DynamicQueue \<Rightarrow> nat list \<Rightarrow>
     ('d, 'c) DynamicQueue \<times> nat list" where
  "run_ops nxt [] q rets = (q, rets)"
| "run_ops nxt (NextTasks n # ops) q rets =
     (case next_tasks nxt n q of (k, q') \<Rightarrow> run_ops nxt ops q' (rets @ [k]))"
| "run_ops nxt (Join # ops) q rets = run_ops nxt ops (join q) rets"

text \<open>
  The caller's loop "call \<^verbatim>\<open>next_tasks(n)\<close> until it returns 0". It does not end for
  \<^verbatim>\<open>n_branches = 0\<close> (every call then enqueues \<open>n\<close> empty batches), so it is a partial
  function: \<open>None\<close> is a loop that runs forever.
\<close>

partial_function (option) call_until_zero ::
  "('d, 'c) domain_next \<Rightarrow> nat \<Rightarrow> ('d, 'c) DynamicQueue \<Rightarrow> ('d, 'c) DynamicQueue option" where
  "call_until_zero nxt n q =
     (case next_tasks nxt n q of
        (k, q') \<Rightarrow> if k = 0 then Some q' else call_until_zero nxt n q')"

text \<open>The number of batches of \<open>b\<close> that \<open>s\<close> Configurations fill: \<open>ceil (s / b)\<close>.\<close>

definition ceil_div :: "nat \<Rightarrow> nat \<Rightarrow> nat" where
  "ceil_div s b = (s + b - 1) div b"

subsection \<open>Python dicts\<close>

text \<open>
  A \<^verbatim>\<open>dict\<close> is the list of its items in insertion order, with distinct keys.
  \<^verbatim>\<open>d[k] = v\<close> replaces the value of a key that is present, in place, and appends a new
  key at the end, which is \<open>AList.update\<close>.
\<close>

type_synonym ('k, 'v) dict = "('k \<times> 'v) list"

definition getitem :: "('k, 'v) dict \<Rightarrow> 'k \<Rightarrow> error + 'v" where
  "getitem d k = (case map_of d k of None \<Rightarrow> Inl KeyError | Some v \<Rightarrow> Inr v)"

definition setitem :: "'k \<Rightarrow> 'v \<Rightarrow> ('k, 'v) dict \<Rightarrow> ('k, 'v) dict" where
  "setitem k v d = AList.update k v d"

text \<open>\<^verbatim>\<open>{**a, **b}\<close>: the items of \<open>b\<close> are stored into a copy of \<open>a\<close>, in order.\<close>

definition dict_merge :: "('k, 'v) dict \<Rightarrow> ('k, 'v) dict \<Rightarrow> ('k, 'v) dict" where
  "dict_merge a b = fold (\<lambda>(k, v). setitem k v) b a"

subsection \<open>Configuration\<close>

text \<open>
  Modelled from the spec: the Configuration class (\<^verbatim>\<open>config.py\<close> is not among the sources;
  \<^verbatim>\<open>research.py\<close> calls its methods \<^verbatim>\<open>config()\<close>, \<^verbatim>\<open>alias()\<close> and \<^verbatim>\<open>pop_config(key)\<close>).
  The spec: "a mapping from dotted option paths to values, produced by the Domain; carries
  an alias (human-readable short form) and a full form; may be queried and have keys
  removed (e.g., auxiliary keys \<^verbatim>\<open>repetition\<close>, \<^verbatim>\<open>device\<close>)". A Configuration is a list of
  parameters, each with its option path and value in the full form and in the alias form;
  \<open>config_dict\<close> is \<^verbatim>\<open>config()\<close>, \<open>alias_dict\<close> is \<^verbatim>\<open>alias()\<close>, and \<open>pop_config\<close>
  removes the parameters with the given option path.
\<close>

record 'v parameter =
  p_key :: string
  p_value :: 'v
  p_key_alias :: string
  p_value_alias :: 'v

type_synonym 'v Configuration = "'v parameter list"

definition config_dict :: "'v Configuration \<Rightarrow> (string, 'v) dict" where
  "config_dict c = dict_merge [] (map (\<lambda>p. (p_key p, p_value p)) c)"

definition alias_dict :: "'v Configuration \<Rightarrow> (string, 'v) dict" where
  "alias_dict c = dict_merge [] (map (\<lambda>p. (p_key_alias p, p_value_alias p)) c)"

definition pop_config :: "string \<Rightarrow> 'v Configuration \<Rightarrow> 'v Configuration" where
  "pop_config key c = filter (\<lambda>p. p_key p \<noteq> key) c"

subsection \<open>Data frames\<close>

text \<open>
  A pandas \<^verbatim>\<open>DataFrame\<close> is the list of its rows; a row maps column names to cells.
  \<open>CText d\<close> is the string that \<^verbatim>\<open>alias(as_string=True)\<close> renders from the alias mapping
  \<open>d\<close> (the rendering is in the missing \<^verbatim>\<open>config.py\<close>).
\<close>

datatype 'v cell = CStr string | CInt int | CVal 'v | CText "(string, 'v) dict"

type_synonym 'v row = "(string, 'v cell) dict"
type_synonym 'v frame = "'v row list"

text \<open>
  \<^verbatim>\<open>pd.merge(l, r, how='inner', on=keys)\<close> is a function of pandas, not of the repository.
  The functions that call it take it as a parameter: \<open>pd_merge keys l r\<close> is the merged
  frame, or the exception that pandas raises.
\<close>

type_synonym 'v pd_merge = "string list \<Rightarrow> 'v frame \<Rightarrow> 'v frame \<Rightarrow> error + 'v frame"

subsection \<open>ResearchResults\<close>

text \<open>
  \<^verbatim>\<open>self.results\<close> and \<^verbatim>\<open>self.configs\<close> are created by \<^verbatim>\<open>mp.Manager().dict()\<close>
  (\<^verbatim>\<open>__init__\<close>, lines 401 and 402): the dicts live in the manager's process and the
  object holds proxies to them. \<^verbatim>\<open>proxy[k] = v\<close> sends \<open>v\<close> to the manager, which stores
  it; \<^verbatim>\<open>proxy[k]\<close>, \<^verbatim>\<open>proxy.items()\<close> and \<^verbatim>\<open>proxy.keys()\<close> return copies of what the
  manager holds. The two fields below are the manager's dicts; a value read from them is
  a copy, and only \<^verbatim>\<open>proxy[k] = v\<close> changes them.
\<close>

record 'v ResearchResults =
  rr_name :: string
  dump_results :: bool
  results :: "(string, (string, (int, 'v) dict) dict) dict"
  configs :: "(string, 'v Configuration) dict"

definition init_results :: "string \<Rightarrow> bool \<Rightarrow> 'v ResearchResults" where
  "init_results nm dump = \<lparr>rr_name = nm, dump_results = dump, results = [], configs = []\<rparr>"

definition put ::
  "string \<Rightarrow> (string, (int, 'v) dict) dict \<Rightarrow> 'v Configuration \<Rightarrow> 'v ResearchResults \<Rightarrow> 'v ResearchResults" where
  "put experiment_id rs config s =
     (let s1 = s\<lparr>results := setitem experiment_id rs (results s)\<rparr>
      in s1\<lparr>configs := setitem experiment_id config (configs s1)\<rparr>)"

text \<open>
  The loop of \<^verbatim>\<open>configs_to_df\<close> over the keys of \<^verbatim>\<open>self.configs\<close>. \<open>config\<close> is the copy
  that \<^verbatim>\<open>self.configs[experiment_id]\<close> returns; \<^verbatim>\<open>config.pop_config(key)\<close> changes that
  copy. The row is \<^verbatim>\<open>pd.DataFrame({'id': [experiment_id], **config})\<close>: the values of
  \<open>config\<close> are scalars, spread over the one-element \<^verbatim>\<open>id\<close> column. When \<open>config\<close> has
  a key \<^verbatim>\<open>id\<close> itself, that scalar replaces the list in the dict literal, and pandas
  rejects a dict of scalars only (\<^verbatim>\<open>ValueError\<close>).
\<close>

fun configs_to_df_rows ::
  "bool \<Rightarrow> bool \<Rightarrow> bool \<Rightarrow> string list \<Rightarrow> 'v frame \<Rightarrow> 'v ResearchResults \<Rightarrow>
     (error + 'v frame) \<times> 'v ResearchResults" where
  "configs_to_df_rows use_alias concat_config remove_auxilary [] df s = (Inr df, s)"
| "configs_to_df_rows use_alias concat_config remove_auxilary (experiment_id # ids) df s =
     (case getitem (configs s) experiment_id of
        Inl e \<Rightarrow> (Inl e, s)
      | Inr config0 \<Rightarrow>
          (let config1 = (if remove_auxilary
                          then fold pop_config [''repetition'', ''device''] config0 else config0);
               config = (if use_alias
                         then (if concat_config then [(''config'', CText (alias_dict config1))]
                               else map (\<lambda>(k, v). (k, CVal v)) (alias_dict config1))
                         else map (\<lambda>(k, v). (k, CVal v)) (config_dict config1))
           in if ''id'' \<in> set (map fst config) then (Inl ValueError, s)
              else configs_to_df_rows use_alias concat_config remove_auxilary ids
                     (df @ [dict_merge [(''id'', CStr experiment_id)] config]) s))"

text \<open>\<^verbatim>\<open>pd.concat(df)\<close> raises \<^verbatim>\<open>ValueError\<close> for an empty list of frames.\<close>

definition configs_to_df ::
  "bool \<Rightarrow> bool \<Rightarrow> bool \<Rightarrow> 'v ResearchResults \<Rightarrow> (error + 'v frame) \<times> 'v ResearchResults" where
  "configs_to_df use_alias concat_config remove_auxilary s =
     (case configs_to_df_rows use_alias concat_config remove_auxilary (map fst (configs s)) [] s of
        (Inl e, s') \<Rightarrow> (Inl e, s')
      | (Inr df, s') \<Rightarrow> if df = [] then (Inl ValueError, s') else (Inr df, s'))"

text \<open>
  The frame \<^verbatim>\<open>pd.DataFrame(_df)\<close> of one named series: \<^verbatim>\<open>id\<close> and \<^verbatim>\<open>name\<close> are scalars,
  \<^verbatim>\<open>iteration\<close> and the value column are the keys and the values of the series. In the
  pivoted form \<^verbatim>\<open>_df[name] = ...\<close> stores into the dict that already has \<^verbatim>\<open>id\<close> and
  \<^verbatim>\<open>iteration\<close>.
\<close>

definition series_frame :: "bool \<Rightarrow> string \<Rightarrow> string \<Rightarrow> (int, 'v) dict \<Rightarrow> 'v frame" where
  "series_frame pivot experiment_id nm series =
     map (\<lambda>(it, v).
        (if pivot
         then setitem nm (CVal v) [(''id'', CStr experiment_id), (''iteration'', CInt it)]
         else [(''id'', CStr experiment_id), (''iteration'', CInt it),
               (''name'', CStr nm), (''value'', CVal v)])) series"

text \<open>
  \<^verbatim>\<open>functools.reduce(functools.partial(pd.merge, on=['id', 'iteration']), experiment_df)\<close>
  on a list that is not empty: \<open>acc\<close> starts as the first frame.
\<close>

fun reduce_merge :: "'v pd_merge \<Rightarrow> 'v frame \<Rightarrow> 'v frame list \<Rightarrow> error + 'v frame" where
  "reduce_merge pd_merge acc [] = Inr acc"
| "reduce_merge pd_merge acc (f # fs) =
     (case pd_merge [''id'', ''iteration''] acc f of
        Inl e \<Rightarrow> Inl e
      | Inr acc' \<Rightarrow> reduce_merge pd_merge acc' fs)"

text \<open>The body of the loop of \<^verbatim>\<open>to_df\<close> over the experiments: the value of \<^verbatim>\<open>experiment_df\<close>.\<close>

definition experiment_frames ::
  "'v pd_merge \<Rightarrow> bool \<Rightarrow> string \<Rightarrow> (string, (int, 'v) dict) dict \<Rightarrow> error + 'v frame list" where
  "experiment_frames pd_merge pivot experiment_id rs =
     (let experiment_df = map (\<lambda>(nm, series). series_frame pivot experiment_id nm series) rs
      in if pivot \<and> length experiment_df > 0
         then (case reduce_merge pd_merge (hd experiment_df) (tl experiment_df) of
                 Inl e \<Rightarrow> Inl e
               | Inr merged \<Rightarrow> Inr [merged])
         else Inr experiment_df)"

text \<open>The loop \<^verbatim>\<open>for experiment_id in self.results\<close>, with \<open>df\<close> the list built so far.\<close>

fun results_frames ::
  "'v pd_merge \<Rightarrow> bool \<Rightarrow> (string, (string, (int, 'v) dict) dict) dict \<Rightarrow> 'v frame list \<Rightarrow>
     error + 'v frame list" where
  "results_frames pd_merge pivot [] df = Inr df"
| "results_frames pd_merge pivot ((experiment_id, rs) # rest) df =
     (case experiment_frames pd_merge pivot experiment_id rs of
        Inl e \<Rightarrow> Inl e
      | Inr experiment_df \<Rightarrow> results_frames pd_merge pivot rest (df @ experiment_df))"

definition to_df ::
  "'v pd_merge \<Rightarrow> bool \<Rightarrow> bool \<Rightarrow> bool \<Rightarrow> bool \<Rightarrow> bool \<Rightarrow> 'v ResearchResults \<Rightarrow>
     (error + 'v frame) \<times> 'v ResearchResults" where
  "to_df pd_merge pivot include_config use_alias concat_config remove_auxilary s =
     (case results_frames pd_merge pivot (results s) [] of
        Inl e \<Rightarrow> (Inl e, s)
      | Inr df \<Rightarrow>
          (let res = (if length df > 0 then concat df else [])
           in if include_config \<and> length res > 0
              then (case configs_to_df use_alias concat_config remove_auxilary s of
                      (Inl e, s') \<Rightarrow> (Inl e, s')
                    | (Inr cdf, s') \<Rightarrow>
                        (case pd_merge [''id''] res cdf of
                           Inl e \<Rightarrow> (Inl e, s')
                         | Inr merged \<Rightarrow> (Inr merged, s')))
              else (Inr res, s)))"

text \<open>
  \<^verbatim>\<open>filter_ids_by_configs(config, alias, domain, **kwargs)\<close>. \<open>None\<close> is Python's
  \<^verbatim>\<open>None\<close>; the \<^verbatim>\<open>domain\<close> argument is given by the Configurations that its
  \<^verbatim>\<open>iterator()\<close> yields.
\<close>

definition given :: "'a option \<Rightarrow> 'b option \<Rightarrow> 'c option \<Rightarrow> nat" where
  "given dmn config alias =
     length (filter (\<lambda>b. b) [dmn \<noteq> None, config \<noteq> None, alias \<noteq> None])"

definition contains_items :: "('k, 'v) dict \<Rightarrow> ('k, 'v) dict \<Rightarrow> bool" where
  "contains_items whole part = list_all (\<lambda>item. item \<in> set whole) part"

function filter_ids_by_configs ::
  "(string, 'v) dict option \<Rightarrow> (string, 'v) dict option \<Rightarrow> 'v Configuration list option \<Rightarrow>
     (string, 'v) dict \<Rightarrow> 'v ResearchResults \<Rightarrow> (error + string list) \<times> 'v ResearchResults" where
  "filter_ids_by_configs config alias dmn kwargs s =
     (if given dmn config alias > 1 then (Inl ValueError, s)
      else case dmn of
        Some dconfigs \<Rightarrow>
          fold (\<lambda>dconfig (acc, s1).
                  case acc of
                    Inl e \<Rightarrow> (Inl e, s1)
                  | Inr filtered_ids \<Rightarrow>
                      (case filter_ids_by_configs (Some (config_dict dconfig)) None None [] s1 of
                         (Inl e, s2) \<Rightarrow> (Inl e, s2)
                       | (Inr ids, s2) \<Rightarrow> (Inr (filtered_ids @ ids), s2)))
               dconfigs (Inr [], s)
      | None \<Rightarrow>
          (let (config1, alias1) =
                 (if length kwargs > 0
                  then (case config of
                          Some c \<Rightarrow> (Some (dict_merge c kwargs), alias)
                        | None \<Rightarrow>
                            (case alias of
                               Some a \<Rightarrow> (config, Some (dict_merge a kwargs))
                             | None \<Rightarrow> (Some kwargs, alias)))
                  else (config, alias))
           in case (config1, alias1) of
                (None, None) \<Rightarrow> (Inr (map fst (configs s)), s)
              | (Some c, _) \<Rightarrow>
                  (Inr (map fst (filter (\<lambda>(experiment_id, supconfig).
                          contains_items (config_dict supconfig) c) (configs s))), s)
              | (None, Some a) \<Rightarrow>
                  (Inr (map fst (filter (\<lambda>(experiment_id, supconfig).
                          contains_items (alias_dict supconfig) a) (configs s))), s)))"
  by pat_completeness auto
termination
  by (relation "measure (\<lambda>(config, alias, dmn, kwargs, s). if dmn = None then 0 else 1)") auto

declare filter_ids_by_configs.simps [simp del]

subsection \<open>The start of Research.run\<close>

text \<open>
  A path is the list of the names on the way from the working directory: \<^verbatim>\<open>'a/b'\<close> is
  \<open>[''a'', ''b'']\<close> and the empty string is \<open>[]\<close>; \<^verbatim>\<open>os.path.join(p, name)\<close> is
  \<open>p @ [name]\<close>. The file system is the set of the directories and the set of the regular
  files that exist. What the operating system decides beyond these two sets (permissions,
  a full disk, a missing \<^verbatim>\<open>git\<close>) is outside the model.
\<close>

type_synonym path = "string list"

record filesystem =
  dirs :: "path set"
  files :: "path set"

text \<open>\<^verbatim>\<open>os.path.exists\<close>; it is false for the empty string.\<close>

definition path_exists :: "path \<Rightarrow> filesystem \<Rightarrow> bool" where
  "path_exists p fs = (p \<noteq> [] \<and> (p \<in> dirs fs \<or> p \<in> files fs))"

text \<open>
  \<^verbatim>\<open>os.mkdir\<close>: the directory above must exist and be a directory (the working directory
  always is), and the path itself must not exist.
\<close>

definition mkdir :: "path \<Rightarrow> filesystem \<Rightarrow> (error + unit) \<times> filesystem" where
  "mkdir p fs =
     (if p = [] then (Inl FileNotFoundError, fs)
      else if butlast p \<noteq> [] \<and> butlast p \<in> files fs then (Inl NotADirectoryError, fs)
      else if butlast p \<noteq> [] \<and> butlast p \<notin> dirs fs then (Inl FileNotFoundError, fs)
      else if path_exists p fs then (Inl FileExistsError, fs)
      else (Inr (), fs\<lparr>dirs := insert p (dirs fs)\<rparr>))"

text \<open>
  \<^verbatim>\<open>os.makedirs(name)\<close> as the standard library has it: when the path above \<open>name\<close> is
  not empty and does not exist it is made first (a \<^verbatim>\<open>FileExistsError\<close> of that call is
  passed over), then \<^verbatim>\<open>mkdir(name)\<close> is called and its exception is raised.
\<close>

function makedirs :: "path \<Rightarrow> filesystem \<Rightarrow> (error + unit) \<times> filesystem" where
  "makedirs name fs =
     (if name \<noteq> [] \<and> butlast name \<noteq> [] \<and> \<not> path_exists (butlast name) fs
      then (case makedirs (butlast name) fs of
              (Inl e, fs1) \<Rightarrow> if e = FileExistsError then mkdir name fs1 else (Inl e, fs1)
            | (Inr _, fs1) \<Rightarrow> mkdir name fs1)
      else mkdir name fs)"
  by pat_completeness auto
termination
  by (relation "measure (\<lambda>(name, fs). length name)") auto

declare makedirs.simps [simp del]

text \<open>\<^verbatim>\<open>with open(p, 'w') as file: print(result, file=file)\<close>: the file exists afterwards.\<close>

definition open_w :: "path \<Rightarrow> filesystem \<Rightarrow> (error + unit) \<times> filesystem" where
  "open_w p fs =
     (if p = [] then (Inl FileNotFoundError, fs)
      else if butlast p \<noteq> [] \<and> butlast p \<in> files fs then (Inl NotADirectoryError, fs)
      else if butlast p \<noteq> [] \<and> butlast p \<notin> dirs fs then (Inl FileNotFoundError, fs)
      else if p \<in> dirs fs then (Inl IsADirectoryError, fs)
      else (Inr (), fs\<lparr>files := insert p (files fs)\<rparr>))"

text \<open>The loop of \<^verbatim>\<open>create_research_folder\<close> over the four subfolders.\<close>

fun create_subfolders :: "path \<Rightarrow> string list \<Rightarrow> filesystem \<Rightarrow> (error + unit) \<times> filesystem" where
  "create_subfolders nm [] fs = (Inr (), fs)"
| "create_subfolders nm (subfolder # rest) fs =
     (let config_path = nm @ [subfolder]
      in if \<not> path_exists config_path fs
         then (case makedirs config_path fs of
                 (Inl e, fs1) \<Rightarrow> (Inl e, fs1)
               | (Inr _, fs1) \<Rightarrow> create_subfolders nm rest fs1)
         else create_subfolders nm rest fs)"

definition create_research_folder :: "path \<Rightarrow> filesystem \<Rightarrow> (error + unit) \<times> filesystem" where
  "create_research_folder nm fs =
     (if \<not> path_exists nm fs
      then (case makedirs nm fs of
              (Inl e, fs1) \<Rightarrow> (Inl e, fs1)
            | (Inr _, fs1) \<Rightarrow>
                create_subfolders nm [''configs'', ''description'', ''env'', ''experiments''] fs1)
      else (Inl ValueError, fs))"

text \<open>
  \<^verbatim>\<open>attach_env_meta()\<close> as \<^verbatim>\<open>run\<close> calls it, without keyword arguments: the loop over the
  three commands \<^verbatim>\<open>commit\<close>, \<^verbatim>\<open>diff\<close>, \<^verbatim>\<open>status\<close>. The output of the \<^verbatim>\<open>git\<close> process
  is the content of the file, which the file system above does not hold. Without dumping
  the output goes to \<^verbatim>\<open>self._env\<close> and no file is written.
\<close>

fun attach_env_files :: "path \<Rightarrow> string list \<Rightarrow> filesystem \<Rightarrow> (error + unit) \<times> filesystem" where
  "attach_env_files nm [] fs = (Inr (), fs)"
| "attach_env_files nm (filename # rest) fs =
     (case (if \<not> path_exists (nm @ [''env'']) fs then makedirs (nm @ [''env'']) fs
            else (Inr (), fs)) of
        (Inl e, fs1) \<Rightarrow> (Inl e, fs1)
      | (Inr _, fs1) \<Rightarrow>
          (case open_w (nm @ [''env'', filename @ ''.txt'']) fs1 of
             (Inl e, fs2) \<Rightarrow> (Inl e, fs2)
           | (Inr _, fs2) \<Rightarrow> attach_env_files nm rest fs2))"

definition attach_env_meta :: "bool \<Rightarrow> path \<Rightarrow> filesystem \<Rightarrow> (error + unit) \<times> filesystem" where
  "attach_env_meta dump nm fs =
     (if dump then attach_env_files nm [''commit'', ''diff'', ''status''] fs else (Inr (), fs))"

text \<open>
  The names that the module \<^verbatim>\<open>research.py\<close> binds: those of its \<^verbatim>\<open>import\<close> statements
  (lines 1 to 21) and of its four classes. Reading any other global name that is not a
  builtin raises \<^verbatim>\<open>NameError\<close>.
\<close>

definition module_globals :: "string list" where
  "module_globals =
     [''os'', ''datetime'', ''csv'', ''copy'', ''deepcopy'', ''itertools'', ''subprocess'',
      ''re'', ''functools'', ''mp'', ''dill'', ''glob'', ''OrderedDict'', ''np'', ''pd'',
      ''Config'', ''Domain'', ''Distributor'', ''Experiment'', ''Executor'',
      ''create_logger'', ''to_list'',
      ''Research'', ''DynamicQueue'', ''ResearchMonitor'', ''ResearchResults'']"

definition load_global :: "string \<Rightarrow> error + unit" where
  "load_global nm = (if nm \<in> set module_globals then Inr () else Inl NameError)"

text \<open>
  What \<^verbatim>\<open>run\<close> reads of the Domain (\<^verbatim>\<open>domain.py\<close> is not among the sources):
  \<^verbatim>\<open>size\<close> (\<open>None\<close> when unknown), \<^verbatim>\<open>update_func\<close> (\<open>None\<close> when absent) and
  \<^verbatim>\<open>update_each\<close> (a period or \<^verbatim>\<open>'last'\<close>).
\<close>

datatype update_when = Every nat | Last

record 'f domain_attrs =
  domain_size :: "nat option"
  update_func :: "'f option"
  update_each :: update_when

text \<open>
  Modelled from the spec: \<^verbatim>\<open>Experiment.dump()\<close> of line 242 (\<^verbatim>\<open>experiment.py\<close> is not
  among the sources). The spec's persisted layout names the research folder, its four
  subfolders, the results under \<^verbatim>\<open>experiments/\<close>, \<^verbatim>\<open>monitor.csv\<close> and the files under
  \<^verbatim>\<open>env/\<close>, and no file written when the experiment is dumped: the call returns the dumped
  experiment and leaves the file system as it is.
\<close>

definition experiment_dump :: "filesystem \<Rightarrow> (error + unit) \<times> filesystem" where
  "experiment_dump fs = (Inr (), fs)"

text \<open>
  \<^verbatim>\<open>Research.run\<close> from line 240 to line 254: the research folder and the dumped
  experiment when results are dumped, the environment snapshot, then the check for an
  unbounded run. The result is the outcome (the exception that leaves \<^verbatim>\<open>run\<close>, or the
  warnings issued when line 256 is reached) and the file system at that moment. Lines 245
  to 250 (the Configs of the workers and branches, the iterator's parameters) touch neither.
\<close>

definition run_start ::
  "bool \<Rightarrow> path \<Rightarrow> 'f domain_attrs \<Rightarrow> filesystem \<Rightarrow> (error + string list) \<times> filesystem" where
  "run_start dump nm d fs =
     (case (if dump
            then (case create_research_folder nm fs of
                    (Inl e, fs1) \<Rightarrow> (Inl e, fs1)
                  | (Inr _, fs1) \<Rightarrow> experiment_dump fs1)
            else (Inr (), fs)) of
        (Inl e, fs1) \<Rightarrow> (Inl e, fs1)
      | (Inr _, fs1) \<Rightarrow>
          (case attach_env_meta dump nm fs1 of
             (Inl e, fs2) \<Rightarrow> (Inl e, fs2)
           | (Inr _, fs2) \<Rightarrow>
               if domain_size d = None \<and> (update_func d = None \<or> update_each d = Last)
               then (case load_global ''warnings'' of
                       Inl e \<Rightarrow> (Inl e, fs2)
                     | Inr _ \<Rightarrow>
                         (Inr [''Research will be infinite because has infinite domain and hasn't domain updating''],
                          fs2))
               else (Inr [], fs2)))"

subsection \<open>Notions used in the statements\<close>

text \<open>
  The rest of this section is not code of the repository. \<open>wf_results\<close> says that a
  results mapping is a Python dict of dicts (no key twice); \<open>put_many\<close> is a sequence of
  \<^verbatim>\<open>put\<close> calls; \<open>series_keys\<close> lists the (id, name, iteration) triples of one results
  mapping, \<open>stored_keys\<close> those of the stored results, and \<open>row_key\<close> reads the triple of
  a row; \<open>plain_aliases\<close> says that no parameter of a Configuration has the name of a
  column of the results frame as its alias; \<open>store_inv\<close> is what every store built by
  \<^verbatim>\<open>put\<close> calls with such arguments satisfies; \<open>popped\<close> is the store whose
  Configurations have lost the auxiliary keys; \<open>two_runs\<close> is an example store.
\<close>

definition popped :: "'v ResearchResults \<Rightarrow> 'v ResearchResults" where
  "popped s = s\<lparr>configs := map (\<lambda>(i, c). (i, fold pop_config [''repetition'', ''device''] c)) (configs s)\<rparr>"

definition two_runs :: "int ResearchResults" where
  "two_runs =
     put ''e2'' [(''loss'', [(0, 7)])]
       [\<lparr>p_key = ''lr'', p_value = 1, p_key_alias = ''lr'', p_value_alias = 1\<rparr>,
        \<lparr>p_key = ''repetition'', p_value = 1, p_key_alias = ''repetition'', p_value_alias = 1\<rparr>]
     (put ''e1'' [(''loss'', [(0, 5), (1, 4)])]
       [\<lparr>p_key = ''lr'', p_value = 1, p_key_alias = ''lr'', p_value_alias = 1\<rparr>,
        \<lparr>p_key = ''repetition'', p_value = 0, p_key_alias = ''repetition'', p_value_alias = 0\<rparr>]
     (init_results ''research'' False))"











text \<open>
  What is assumed of \<^verbatim>\<open>pd.merge(l, r, how='inner', on='id')\<close>. \<open>inner_join\<close> pairs every
  row of \<open>l\<close> with the rows of \<open>r\<close> that have the same cells in the key columns, in the
  order of \<open>l\<close> and then of \<open>r\<close>, and adds the other columns of the right row.
  \<open>joins_on_id pd_merge\<close> says that \<open>pd_merge\<close> returns this frame when both frames have
  rows, every row is a dict, every row has a string in its \<^verbatim>\<open>id\<close> column, and \<^verbatim>\<open>id\<close> is
  the only column that the two frames share (pandas renames a shared column, and compares
  the dtypes of the key columns before it joins; neither happens on such frames).
\<close>

definition inner_join :: "'v pd_merge" where
  "inner_join keys l r =
     Inr (concat (map (\<lambda>a. map (\<lambda>b. a @ filter (\<lambda>(c, _). c \<notin> set keys) b)
                         (filter (\<lambda>b. list_all (\<lambda>k. map_of a k = map_of b k) keys) r)) l))"

definition id_keyed :: "'v frame \<Rightarrow> bool" where
  "id_keyed f =
     list_all (\<lambda>a. distinct (map fst a) \<and> (case map_of a ''id'' of Some (CStr i) \<Rightarrow> True | _ \<Rightarrow> False)) f"

definition share_id_only :: "'v frame \<Rightarrow> 'v frame \<Rightarrow> bool" where
  "share_id_only l r =
     list_all (\<lambda>a. list_all (\<lambda>b. list_all (\<lambda>c. c = ''id'' \<or> c \<notin> set (map fst b)) (map fst a)) r) l"

definition joins_on_id :: "'v pd_merge \<Rightarrow> bool" where
  "joins_on_id pd_merge =
     (\<forall>l r. l \<noteq> [] \<and> r \<noteq> [] \<and> id_keyed l \<and> id_keyed r \<and> share_id_only l r \<longrightarrow>
        pd_merge [''id''] l r = inner_join [''id''] l r)"


definition path_prefixes :: "path \<Rightarrow> path list" where
  "path_prefixes p = map (\<lambda>n. take n p) [1 ..< Suc (length p)]"



section \<open>Properties of DynamicQueue\<close>

subsection \<open>One call of next_tasks on a list Domain\<close>

lemma draw_list:
  "draw_branches list_next k xs acc = (acc @ take k xs, drop k xs, length xs < k)"
  by (induction k arbitrary: xs acc) (auto simp: list_next_def split: list.splits)

lemma collect_acc:
  "collect_configs nxt b n d cfgs =
     (case collect_configs nxt b n d [] of (new, d', st) \<Rightarrow> (cfgs @ new, d', st))"
proof (induction n arbitrary: d cfgs)
  case 0
  show ?case by simp
next
  case (Suc i)
  obtain bt d' stop where dr: "draw_branches nxt b d [] = (bt, d', stop)"
    by (cases "draw_branches nxt b d []") auto
  show ?case
  proof (cases stop)
    case True
    with dr show ?thesis by simp
  next
    case False
    have "collect_configs nxt b i d' (cfgs @ [bt]) =
        (case collect_configs nxt b i d' [] of (new, d'', st) \<Rightarrow> ((cfgs @ [bt]) @ new, d'', st))"
      by (rule Suc.IH)
    moreover have "collect_configs nxt b i d' ([] @ [bt]) =
        (case collect_configs nxt b i d' [] of (new, d'', st) \<Rightarrow> (([] @ [bt]) @ new, d'', st))"
      by (rule Suc.IH)
    ultimately show ?thesis using dr False
      by (simp split: prod.splits)
  qed
qed

lemma collect_list_0: "collect_configs list_next b 0 xs [] = ([], xs, None)"
  by simp

lemma collect_list_stop:
  "length xs < b \<Longrightarrow>
   collect_configs list_next b (Suc i) xs [] = (if xs \<noteq> [] then [xs] else [], [], Some (length xs))"
  by (simp add: draw_list)

lemma collect_list_go:
  "b \<le> length xs \<Longrightarrow>
   collect_configs list_next b (Suc i) xs [] =
     (case collect_configs list_next b i (drop b xs) [] of
        (new, d', st) \<Rightarrow> (take b xs # new, d', st))"
  using collect_acc [of list_next b i "drop b xs" "[take b xs]"]
  by (simp add: draw_list)

lemma put_all_queue_gen:
  "fold (\<lambda>(i, executor_configs) q'. queue_put (Some (withdrawn_tasks q' + i, executor_configs)) q')
       (enumerate m cfgs) q =
   q\<lparr>queue := queue q @ map Some (enumerate (withdrawn_tasks q + m) cfgs)\<rparr>"
  by (induction cfgs arbitrary: m q) (simp_all add: queue_put_def)

lemma put_all_eq:
  "put_all cfgs q = q\<lparr>queue := queue q @ map Some (enumerate (withdrawn_tasks q) cfgs)\<rparr>"
  using put_all_queue_gen [of 0 cfgs q] by (simp add: put_all_def)


lemma ceil_div_step: "0 < b \<Longrightarrow> b \<le> s \<Longrightarrow> ceil_div s b = Suc (ceil_div (s - b) b)"
proof -
  assume b: "0 < b" and le: "b \<le> s"
  have "s + b - 1 = (s - b + b - 1) + b" using b le by simp
  then have "(s + b - 1) div b = (s - b + b - 1) div b + 1"
    using b by (metis div_add_self2 less_numeral_extra(3))
  then show ?thesis by (simp add: ceil_div_def)
qed

lemma ceil_div_small: "0 < s \<Longrightarrow> s < b \<Longrightarrow> ceil_div s b = 1"
  unfolding ceil_div_def by (rule div_nat_eqI) simp_all

lemma ceil_div_0: "0 < b \<Longrightarrow> ceil_div 0 b = 0"
  by (simp add: ceil_div_def)

text \<open>What one call collects from a list Domain.\<close>

lemma collect_list_props:
  "collect_configs list_next b n xs [] = (new, d', st) \<Longrightarrow>
     xs = concat new @ d' \<and> length new \<le> n \<and> length (concat new) \<le> n * b \<and>
     (\<forall>x \<in> set (butlast new). length x = b) \<and>
     (\<forall>x \<in> set new. length x \<le> b \<and> x \<noteq> []  \<or> b = 0) \<and>
     ((new \<noteq> [] \<and> length (last new) < b) = (\<exists>m. st = Some m \<and> 0 < m)) \<and>
     (\<forall>m. st = Some m \<longrightarrow> d' = [] \<and> m < b \<and> (0 < m \<longrightarrow> new \<noteq> [] \<and> length (last new) = m)) \<and>
     (0 < b \<longrightarrow> ceil_div (length d') b + length new = ceil_div (length xs) b) \<and>
     (0 < b \<and> 0 < n \<and> xs \<noteq> [] \<longrightarrow> new \<noteq> [])"
proof (induction n arbitrary: xs new d' st)
  case 0
  then show ?case by simp
next
  case (Suc i)
  show ?case
  proof (cases "length xs < b")
    case True
    have r: "new = (if xs \<noteq> [] then [xs] else [])" "d' = []" "st = Some (length xs)"
      using Suc.prems collect_list_stop [OF True, of i] by (simp_all del: collect_configs.simps)
    show ?thesis
    proof (cases "xs = []")
      case True
      with r \<open>length xs < b\<close> show ?thesis by (simp add: ceil_div_0)
    next
      case False
      with r \<open>length xs < b\<close> show ?thesis by (simp add: ceil_div_0 ceil_div_small)
    qed
  next
    case False
    then have le: "b \<le> length xs" by simp
    obtain new1 d1 st1 where c: "collect_configs list_next b i (drop b xs) [] = (new1, d1, st1)"
      by (cases "collect_configs list_next b i (drop b xs) []") auto
    have r: "new = take b xs # new1" "d' = d1" "st = st1"
      using Suc.prems c collect_list_go [OF le, of i] by (simp_all del: collect_configs.simps)
    note ih = Suc.IH [OF c]
    have len: "length (take b xs) = b" using le by simp
    have xs: "xs = take b xs @ drop b xs" by simp
    have p1: "xs = concat new @ d'"
      using ih r by (metis append.assoc append_take_drop_id concat.simps(2))
    have p2: "length new \<le> Suc i" using ih r by simp
    have p3: "length (concat new) \<le> Suc i * b" using ih r len by simp
    have p4: "\<forall>x \<in> set (butlast new). length x = b" using ih r len by auto
    have p5: "\<forall>x \<in> set new. length x \<le> b \<and> x \<noteq> [] \<or> b = 0" using ih r len by auto
    have p6: "(new \<noteq> [] \<and> length (last new) < b) = (\<exists>m. st = Some m \<and> 0 < m)"
      using ih r len by auto
    have p7: "\<forall>m. st = Some m \<longrightarrow> d' = [] \<and> m < b \<and> (0 < m \<longrightarrow> new \<noteq> [] \<and> length (last new) = m)"
      using ih r len by auto
    have p8: "0 < b \<longrightarrow> ceil_div (length d') b + length new = ceil_div (length xs) b"
    proof
      assume b: "0 < b"
      have e1: "ceil_div (length xs) b = Suc (ceil_div (length xs - b) b)"
        using ceil_div_step [OF b le] .
      have e2: "ceil_div (length d1) b + length new1 = ceil_div (length xs - b) b"
        using ih b by simp
      have e3: "length new = Suc (length new1)" using r by simp
      show "ceil_div (length d') b + length new = ceil_div (length xs) b"
        unfolding e1 e3 r(2) using e2 by simp
    qed
    have p9: "0 < b \<and> 0 < Suc i \<and> xs \<noteq> [] \<longrightarrow> new \<noteq> []" using r by simp
    from p1 p2 p3 p4 p5 p6 p7 p8 p9 show ?thesis by blast
  qed
qed


lemma collect_list_split:
  "collect_configs list_next b n xs [] = (new, d', st) \<Longrightarrow> xs = concat new @ d'"
  by (drule collect_list_props, elim conjE, assumption)

lemma collect_list_nonempty:
  "collect_configs list_next b n xs [] = (new, d', st) \<Longrightarrow>
     \<forall>x \<in> set new. length x \<le> b \<and> x \<noteq> [] \<or> b = 0"
  by (drule collect_list_props, elim conjE, assumption)

lemma collect_list_count:
  "collect_configs list_next b n xs [] = (new, d', st) \<Longrightarrow>
     0 < b \<longrightarrow> ceil_div (length d') b + length new = ceil_div (length xs) b"
  by (drule collect_list_props, elim conjE, assumption)

lemma collect_list_progress:
  "collect_configs list_next b n xs [] = (new, d', st) \<Longrightarrow>
     0 < b \<and> 0 < n \<and> xs \<noteq> [] \<longrightarrow> new \<noteq> []"
  by (drule collect_list_props, elim conjE, assumption)

lemma next_tasks_unfold:
  "collect_configs nxt (n_branches q) n (domain q) [] = (new, d', st) \<Longrightarrow>
   next_tasks nxt n q =
     (length new,
      q\<lparr>domain := d', queue := queue q @ map Some (enumerate (withdrawn_tasks q) new),
        withdrawn_tasks := withdrawn_tasks q + length new\<rparr>)"
  by (simp add: next_tasks_def put_all_eq Let_def)

lemma call_until_zero_list:
  "0 < n \<Longrightarrow> 0 < n_branches q \<Longrightarrow>
   \<exists>q' batches. call_until_zero list_next n q = Some q' \<and>
     queue q' = queue q @ map Some (enumerate (withdrawn_tasks q) batches) \<and>
     length batches = ceil_div (length (domain q)) (n_branches q) \<and>
     concat batches = domain q \<and>
     withdrawn_tasks q' = withdrawn_tasks q + length batches \<and>
     finished_tasks q' = finished_tasks q \<and> n_branches q' = n_branches q \<and> domain q' = []"
proof (induction "length (domain q)" arbitrary: q rule: less_induct)
  case less
  let ?b = "n_branches q"
  obtain new d' st where c: "collect_configs list_next ?b n (domain q) [] = (new, d', st)"
    by (cases "collect_configs list_next ?b n (domain q) []") auto
  note nt = next_tasks_unfold [OF c]
  have split: "domain q = concat new @ d'" by (rule collect_list_split [OF c])
  let ?q1 = "q\<lparr>domain := d', queue := queue q @ map Some (enumerate (withdrawn_tasks q) new),
        withdrawn_tasks := withdrawn_tasks q + length new\<rparr>"
  show ?case
  proof (cases "new = []")
    case True
    have xs: "domain q = []"
      using collect_list_progress [OF c] less.prems True by simp
    with split True have d': "d' = []" by simp
    have "call_until_zero list_next n q = Some ?q1"
      by (subst call_until_zero.simps) (simp add: nt True)
    moreover have "ceil_div (length (domain q)) ?b = 0"
      using xs less.prems by (simp add: ceil_div_0)
    ultimately show ?thesis using True xs d'
      by (intro exI [of _ ?q1] exI [of _ "[]"]) simp
  next
    case False
    have nonempty: "\<forall>x \<in> set new. x \<noteq> []"
      using collect_list_nonempty [OF c] less.prems by simp
    then have "concat new \<noteq> []" using False by (cases new) auto
    then have "length d' < length (domain q)" unfolding split by simp
    then have shorter: "length (domain ?q1) < length (domain q)" by simp
    have b1: "0 < n_branches ?q1" using less.prems by simp
    from less.hyps [OF shorter less.prems(1) b1]
    obtain q' bs where ih: "call_until_zero list_next n ?q1 = Some q'"
      "queue q' = queue ?q1 @ map Some (enumerate (withdrawn_tasks ?q1) bs)"
      "length bs = ceil_div (length (domain ?q1)) (n_branches ?q1)"
      "concat bs = domain ?q1"
      "withdrawn_tasks q' = withdrawn_tasks ?q1 + length bs"
      "finished_tasks q' = finished_tasks ?q1" "n_branches q' = n_branches ?q1" "domain q' = []"
      by (elim exE conjE)
    have run: "call_until_zero list_next n q = Some q'"
      by (subst call_until_zero.simps) (simp add: nt False ih(1))
    have cnt: "ceil_div (length d') ?b + length new = ceil_div (length (domain q)) ?b"
      using collect_list_count [OF c] less.prems by simp
    have q: "queue q' = queue q @ map Some (enumerate (withdrawn_tasks q) (new @ bs))"
      using ih(2) by (simp add: enumerate_append_eq)
    have l: "length (new @ bs) = ceil_div (length (domain q)) ?b"
      using ih(3) cnt by simp
    have cc: "concat (new @ bs) = domain q" using ih(4) split by simp
    have w: "withdrawn_tasks q' = withdrawn_tasks q + length (new @ bs)" using ih(5) by simp
    show ?thesis
      using run q l cc w ih(6,7,8) by (intro exI [of _ q'] exI [of _ "new @ bs"]) simp
  qed
qed

lemma next_tasks_counters:
  "next_tasks nxt n q = (k, q') \<Longrightarrow>
     withdrawn_tasks q' = withdrawn_tasks q + k \<and> finished_tasks q' = finished_tasks q"
  by (cases "collect_configs nxt (n_branches q) n (domain q) []")
     (auto simp: next_tasks_unfold)

lemma join_counters:
  "withdrawn_tasks (join q) = withdrawn_tasks q \<and> finished_tasks (join q) = finished_tasks q + 1"
  by (simp add: join_def queue_join_def)

lemma run_ops_counters:
  "run_ops nxt ops q rets = (q', rets') \<Longrightarrow>
     withdrawn_tasks q' + sum_list rets = withdrawn_tasks q + sum_list rets' \<and>
     finished_tasks q' = finished_tasks q + length (filter (\<lambda>op. op = Join) ops)"
proof (induction nxt ops q rets rule: run_ops.induct)
  case (1 nxt q rets)
  then show ?case by simp
next
  case (2 nxt n ops q rets)
  obtain k q1 where nt: "next_tasks nxt n q = (k, q1)" by (cases "next_tasks nxt n q") auto
  with 2 have "run_ops nxt ops q1 (rets @ [k]) = (q', rets')" by simp
  from "2.IH" [OF nt [symmetric] this] next_tasks_counters [OF nt]
  show ?case by simp
next
  case (3 nxt ops q rets)
  then have "run_ops nxt ops (join q) rets = (q', rets')" by simp
  from "3.IH" [OF this] join_counters [of q] show ?case by simp
qed

lemma collect_list_length:
  "collect_configs list_next b n xs [] = (new, d', st) \<Longrightarrow> length new \<le> n"
  by (drule collect_list_props, elim conjE, assumption)

lemma collect_list_drawn:
  "collect_configs list_next b n xs [] = (new, d', st) \<Longrightarrow> length (concat new) \<le> n * b"
  by (drule collect_list_props, elim conjE, assumption)

lemma collect_list_full:
  "collect_configs list_next b n xs [] = (new, d', st) \<Longrightarrow>
     \<forall>x \<in> set (butlast new). length x = b"
  by (drule collect_list_props, elim conjE, assumption)

lemma collect_list_partial:
  "collect_configs list_next b n xs [] = (new, d', st) \<Longrightarrow>
     (new \<noteq> [] \<and> length (last new) < b) = (\<exists>m. st = Some m \<and> 0 < m)"
  by (drule collect_list_props, elim conjE, assumption)

lemma collect_list_stopped:
  "collect_configs list_next b n xs [] = (new, d', st) \<Longrightarrow>
     \<forall>m. st = Some m \<longrightarrow> d' = [] \<and> m < b \<and> (0 < m \<longrightarrow> new \<noteq> [] \<and> length (last new) = m)"
  by (drule collect_list_props, elim conjE, assumption)

subsection \<open>The claims about DynamicQueue\<close>

text \<open>
  C1. Every call of \<^verbatim>\<open>DynamicQueue.join()\<close> increments \<^verbatim>\<open>finished_tasks\<close> by exactly 1,
  whatever items the queue held when the call was made (all of them are drained before the
  underlying join releases); \<^verbatim>\<open>withdrawn_tasks\<close>, the Domain and \<^verbatim>\<open>n_branches\<close> are
  not changed.
\<close>

theorem join_increments_finished_by_one:
  "finished_tasks (join (q\<lparr>queue := items\<rparr>)) = finished_tasks q + 1 \<and>
   withdrawn_tasks (join (q\<lparr>queue := items\<rparr>)) = withdrawn_tasks q \<and>
   domain (join (q\<lparr>queue := items\<rparr>)) = domain q \<and>
   n_branches (join (q\<lparr>queue := items\<rparr>)) = n_branches q \<and>
   queue (join (q\<lparr>queue := items\<rparr>)) = []"
  by (simp add: join_def queue_join_def)

text \<open>
  C2. For a Domain of known finite size \<open>S\<close> (the list \<open>domain q\<close>) and a branch count
  \<open>B \<ge> 1\<close>, calling \<^verbatim>\<open>next_tasks(n)\<close> (with \<open>n \<ge> 1\<close>) until it returns 0 ends, and the
  tasks it has enqueued carry the ids \<open>w, w + 1, \<dots>, w + ceil (S / B) - 1\<close> in this order,
  where \<open>w\<close> is the withdrawal counter at the start: each id is the number of tasks
  withdrawn before it, the ids are distinct, there are exactly \<open>ceil (S / B)\<close> of them, and
  the batches are the Domain's Configurations in draw order.
\<close>

theorem next_tasks_until_zero_ids:
  assumes "0 < n_branches q" and "0 < n"
  shows "\<exists>q' batches. call_until_zero list_next n q = Some q' \<and>
     queue q' = queue q @ map Some (enumerate (withdrawn_tasks q) batches) \<and>
     map fst (enumerate (withdrawn_tasks q) batches) =
       [withdrawn_tasks q ..< withdrawn_tasks q + ceil_div (length (domain q)) (n_branches q)] \<and>
     distinct (map fst (enumerate (withdrawn_tasks q) batches)) \<and>
     length batches = ceil_div (length (domain q)) (n_branches q) \<and>
     concat batches = domain q \<and>
     withdrawn_tasks q' = withdrawn_tasks q + ceil_div (length (domain q)) (n_branches q)"
proof -
  from call_until_zero_list [OF assms(2) assms(1)]
  obtain q' batches where r: "call_until_zero list_next n q = Some q'"
    "queue q' = queue q @ map Some (enumerate (withdrawn_tasks q) batches)"
    "length batches = ceil_div (length (domain q)) (n_branches q)"
    "concat batches = domain q"
    "withdrawn_tasks q' = withdrawn_tasks q + length batches"
    by (elim exE conjE)
  have ids: "map fst (enumerate (withdrawn_tasks q) batches) =
       [withdrawn_tasks q ..< withdrawn_tasks q + ceil_div (length (domain q)) (n_branches q)]"
    using r(3) by simp
  have "distinct (map fst (enumerate (withdrawn_tasks q) batches))"
    unfolding ids by simp
  with r ids show ?thesis
    by (intro exI [of _ q'] exI [of _ batches]) simp
qed

theorem next_tasks_until_zero_ids_witness:
  "\<exists>q'. call_until_zero list_next 2 (init_queue [10, 20, 30, 40, 50 :: nat] 2) = Some q' \<and>
     map (map_option fst) (queue q') = [Some 0, Some 1, Some 2] \<and> withdrawn_tasks q' = 3"
proof -
  let ?q = "init_queue [10, 20, 30, 40, 50 :: nat] 2 :: (nat list, nat) DynamicQueue"
  have b: "0 < n_branches ?q" by (simp add: init_queue_def)
  have c: "ceil_div (length (domain ?q)) (n_branches ?q) = 3"
    by (simp add: init_queue_def ceil_div_def)
  from next_tasks_until_zero_ids [OF b, of 2]
  obtain q' batches where r: "call_until_zero list_next 2 ?q = Some q'"
    "queue q' = queue ?q @ map Some (enumerate (withdrawn_tasks ?q) batches)"
    "map fst (enumerate (withdrawn_tasks ?q) batches) =
       [withdrawn_tasks ?q ..< withdrawn_tasks ?q + ceil_div (length (domain ?q)) (n_branches ?q)]"
    "withdrawn_tasks q' = withdrawn_tasks ?q + ceil_div (length (domain ?q)) (n_branches ?q)"
    by auto
  have w0: "withdrawn_tasks ?q = 0" "queue ?q = []" by (simp_all add: init_queue_def)
  have "map (map_option fst) (queue q') = map Some (map fst (enumerate (withdrawn_tasks ?q) batches))"
    unfolding r(2) w0 by (simp add: comp_def del: map_fst_enumerate)
  also have "\<dots> = map Some [0 ..< 3]" using r(3) c w0 by simp
  also have "\<dots> = [Some 0, Some 1, Some 2]" by (simp add: upt_rec)
  finally have ids: "map (map_option fst) (queue q') = [Some 0, Some 1, Some 2]" .
  have w: "withdrawn_tasks q' = 3" using r(4) c w0 by simp
  show ?thesis
    by (rule exI [of _ q']) (simp only: r(1) ids w simp_thms)
qed

text \<open>
  C3. One call \<^verbatim>\<open>next_tasks(n)\<close> on a list Domain enqueues \<open>k \<le> n\<close> batches and returns
  \<open>k\<close>. The batches are a prefix of what remained in the Domain, so the call draws at most
  \<open>n * n_branches\<close> Configurations and never more than remain. Every batch but the last
  has exactly \<^verbatim>\<open>n_branches\<close> Configurations. The last one has fewer exactly when
  \<^verbatim>\<open>StopIteration\<close> was caught with \<open>m > 0\<close> Configurations already drawn for the batch
  (the reading of "exhausted mid-batch" taken here); that partial batch of \<open>m\<close> is then
  the last one enqueued, and the Domain is empty afterwards.
\<close>

theorem next_tasks_batches:
  assumes "next_tasks list_next n q = (k, q')"
  shows "\<exists>batches.
     queue q' = queue q @ map Some (enumerate (withdrawn_tasks q) batches) \<and>
     k = length batches \<and> k \<le> n \<and>
     withdrawn_tasks q' = withdrawn_tasks q + k \<and>
     domain q = concat batches @ domain q' \<and>
     length (concat batches) \<le> n * n_branches q \<and>
     length (concat batches) \<le> length (domain q) \<and>
     (\<forall>x \<in> set (butlast batches). length x = n_branches q) \<and>
     (\<forall>x \<in> set batches. length x \<le> n_branches q \<and> x \<noteq> [] \<or> n_branches q = 0) \<and>
     ((batches \<noteq> [] \<and> length (last batches) < n_branches q) =
        (\<exists>m. snd (snd (collect_configs list_next (n_branches q) n (domain q) [])) = Some m \<and> 0 < m)) \<and>
     (\<forall>m. snd (snd (collect_configs list_next (n_branches q) n (domain q) [])) = Some m \<longrightarrow>
        domain q' = [] \<and> m < n_branches q \<and>
        (0 < m \<longrightarrow> batches \<noteq> [] \<and> length (last batches) = m))"
proof -
  obtain new d' st where c: "collect_configs list_next (n_branches q) n (domain q) [] = (new, d', st)"
    by (cases "collect_configs list_next (n_branches q) n (domain q) []") auto
  have "(k, q') = (length new, q\<lparr>domain := d',
        queue := queue q @ map Some (enumerate (withdrawn_tasks q) new),
        withdrawn_tasks := withdrawn_tasks q + length new\<rparr>)"
    using assms next_tasks_unfold [OF c] by (simp only:)
  then have k: "k = length new" and q': "q' = q\<lparr>domain := d',
        queue := queue q @ map Some (enumerate (withdrawn_tasks q) new),
        withdrawn_tasks := withdrawn_tasks q + length new\<rparr>"
    by simp_all
  have split: "domain q = concat new @ d'" by (rule collect_list_split [OF c])
  then have "length (domain q) = length (concat new) + length d'" by (metis length_append)
  then have le: "length (concat new) \<le> length (domain q)" by simp
  have st: "snd (snd (collect_configs list_next (n_branches q) n (domain q) [])) = st"
    by (simp add: c)
  have dq: "domain q' = d'" "queue q' = queue q @ map Some (enumerate (withdrawn_tasks q) new)"
    "withdrawn_tasks q' = withdrawn_tasks q + length new"
    by (simp_all add: q')
  show ?thesis
    unfolding st dq k
    by (rule exI [of _ new])
       (intro conjI refl split le collect_list_length [OF c] collect_list_drawn [OF c]
          collect_list_full [OF c] collect_list_nonempty [OF c] collect_list_partial [OF c]
          collect_list_stopped [OF c])
qed

theorem next_tasks_batches_witness:
  "next_tasks list_next 5 (init_queue [10, 20, 30 :: nat] 2) =
     (2, \<lparr>domain = [], n_branches = 2, queue = [Some (0, [10, 20]), Some (1, [30])],
          withdrawn_tasks = 2, finished_tasks = 0\<rparr>) \<and>
   snd (snd (collect_configs list_next 2 5 [10, 20, 30 :: nat] [])) = Some 1"
proof -
  let ?q = "init_queue [10, 20, 30 :: nat] 2 :: (nat list, nat) DynamicQueue"
  let ?q' = "\<lparr>domain = [], n_branches = 2, queue = [Some (0, [10, 20]), Some (1, [30::nat])],
          withdrawn_tasks = 2, finished_tasks = 0\<rparr> :: (nat list, nat) DynamicQueue"
  have e: "next_tasks list_next 5 ?q = (2, ?q')"
    by (simp add: next_tasks_def init_queue_def put_all_def queue_put_def list_next_def
        eval_nat_numeral Let_def)
  have s: "snd (snd (collect_configs list_next 2 5 [10, 20, 30 :: nat] [])) = Some 1"
    by (simp add: list_next_def eval_nat_numeral)
  from next_tasks_batches [OF e] s e show ?thesis by simp
qed

text \<open>
  C4. The claim that \<^verbatim>\<open>withdrawn_tasks \<ge> finished_tasks\<close> holds in every state reachable
  by \<^verbatim>\<open>next_tasks\<close> and \<^verbatim>\<open>join\<close> fails: \<^verbatim>\<open>join()\<close> on a fresh queue returns at once
  (nothing is outstanding) and leaves \<^verbatim>\<open>finished_tasks = 1\<close>, \<^verbatim>\<open>withdrawn_tasks = 0\<close>.
\<close>

theorem join_on_fresh_queue_counterexample:
  "\<not> finished_tasks (fst (run_ops list_next [Join] (init_queue ([] :: nat list) 1) []))
      \<le> withdrawn_tasks (fst (run_ops list_next [Join] (init_queue ([] :: nat list) 1) []))"
  by (simp add: join_def queue_join_def init_queue_def)

text \<open>
  C4, as the code has it. In every state reachable from the initial one by
  \<^verbatim>\<open>next_tasks\<close> and \<^verbatim>\<open>join\<close> calls, \<^verbatim>\<open>in_progress()\<close> is true exactly when the two
  counters differ, \<^verbatim>\<open>withdrawn_tasks\<close> is the number of batches enqueued (the sum of the
  values \<^verbatim>\<open>next_tasks\<close> returned) and \<^verbatim>\<open>finished_tasks\<close> is the number of \<^verbatim>\<open>join\<close>
  calls; so \<^verbatim>\<open>withdrawn_tasks \<ge> finished_tasks\<close> holds exactly in the states where no more
  joins were made than batches were enqueued.
\<close>

theorem reachable_counters:
  "in_progress (fst (run_ops nxt ops (init_queue d b) [])) =
     (withdrawn_tasks (fst (run_ops nxt ops (init_queue d b) [])) \<noteq>
      finished_tasks (fst (run_ops nxt ops (init_queue d b) []))) \<and>
   withdrawn_tasks (fst (run_ops nxt ops (init_queue d b) [])) =
     sum_list (snd (run_ops nxt ops (init_queue d b) [])) \<and>
   finished_tasks (fst (run_ops nxt ops (init_queue d b) [])) =
     length (filter (\<lambda>op. op = Join) ops) \<and>
   (finished_tasks (fst (run_ops nxt ops (init_queue d b) []))
      \<le> withdrawn_tasks (fst (run_ops nxt ops (init_queue d b) []))) =
     (length (filter (\<lambda>op. op = Join) ops) \<le> sum_list (snd (run_ops nxt ops (init_queue d b) [])))"
proof -
  obtain q rets where r: "run_ops nxt ops (init_queue d b) [] = (q, rets)"
    by (cases "run_ops nxt ops (init_queue d b) []") auto
  have i: "withdrawn_tasks (init_queue d b :: ('a, 'b) DynamicQueue) = 0"
    "finished_tasks (init_queue d b :: ('a, 'b) DynamicQueue) = 0"
    by (simp_all add: init_queue_def)
  from run_ops_counters [OF r] have "withdrawn_tasks q = sum_list rets"
    "finished_tasks q = length (filter (\<lambda>op. op = Join) ops)"
    by (simp_all add: i)
  then show ?thesis
    unfolding r by (simp add: in_progress_def)
qed

section \<open>Properties of ResearchResults and Research.run\<close>

lemma configs_to_df_rows_store:
  "snd (configs_to_df_rows ua cc ra ids df s) = s"
  by (induction ids arbitrary: df) (auto simp: Let_def split: sum.splits)

lemma configs_to_df_store: "snd (configs_to_df ua cc ra s) = s"
proof -
  obtain r s' where e: "configs_to_df_rows ua cc ra (map fst (configs s)) [] s = (r, s')"
    by (cases "configs_to_df_rows ua cc ra (map fst (configs s)) [] s") auto
  then have "s' = s" using configs_to_df_rows_store [of ua cc ra "map fst (configs s)" "[]" s]
    by simp
  with e show ?thesis by (simp add: configs_to_df_def split: sum.splits)
qed

lemma to_df_store: "snd (to_df pd_merge pivot ic ua cc ra s) = s"
proof -
  obtain r s' where e: "configs_to_df ua cc ra s = (r, s')"
    by (cases "configs_to_df ua cc ra s") auto
  then have "s' = s" using configs_to_df_store [of ua cc ra s] by simp
  with e show ?thesis by (simp add: to_df_def Let_def split: sum.splits)
qed

lemma getitem_map_values:
  "getitem (map (\<lambda>(i, c). (i, f c)) d) k = map_sum id f (getitem d k)"
  by (induction d) (auto simp: getitem_def split: option.splits)

lemma configs_to_df_rows_popped:
  "fst (configs_to_df_rows ua cc True ids df s) =
   fst (configs_to_df_rows ua cc False ids df (popped s))"
proof (induction ids arbitrary: df)
  case Nil
  show ?case by simp
next
  case (Cons i ids)
  have g: "getitem (configs (popped s)) i =
      map_sum id (fold pop_config [''repetition'', ''device'']) (getitem (configs s) i)"
    by (simp add: popped_def getitem_map_values comp_def)
  show ?case
  proof (cases "getitem (configs s) i")
    case (Inl e)
    with g show ?thesis by simp
  next
    case (Inr c)
    with g Cons.IH show ?thesis by (simp add: Let_def)
  qed
qed

lemma configs_to_df_popped:
  "fst (configs_to_df ua cc True s) = fst (configs_to_df ua cc False (popped s))"
proof -
  have k: "map fst (configs (popped s)) = map fst (configs s)"
    by (simp add: popped_def comp_def case_prod_unfold)
  obtain r s' where e: "configs_to_df_rows ua cc True (map fst (configs s)) [] s = (r, s')"
    by (cases "configs_to_df_rows ua cc True (map fst (configs s)) [] s") auto
  obtain r2 s2 where e2: "configs_to_df_rows ua cc False (map fst (configs s)) [] (popped s) = (r2, s2)"
    by (cases "configs_to_df_rows ua cc False (map fst (configs s)) [] (popped s)") auto
  have "r = r2"
    using configs_to_df_rows_popped [of ua cc "map fst (configs s)" "[]" s] e e2 by simp
  with e e2 k show ?thesis by (simp add: configs_to_df_def split: sum.splits)
qed

text \<open>
  C10, as the code has it. \<^verbatim>\<open>configs_to_df\<close> (and \<^verbatim>\<open>to_df\<close>, which calls it) leaves
  the store as it was, for every value of \<^verbatim>\<open>remove_auxilary\<close>: the Configuration it
  modifies is the copy that the manager's proxy returned, and nothing writes it back. With
  \<^verbatim>\<open>remove_auxilary=True\<close> the frame it returns is the one that
  \<^verbatim>\<open>remove_auxilary=False\<close> returns on a store whose Configurations have lost their
  \<^verbatim>\<open>repetition\<close> and \<^verbatim>\<open>device\<close> parameters.
\<close>

theorem configs_to_df_leaves_store:
  "snd (configs_to_df use_alias concat_config remove_auxilary s) = s \<and>
   snd (to_df pd_merge pivot include_config use_alias concat_config remove_auxilary s) = s \<and>
   fst (configs_to_df use_alias concat_config True s) =
     fst (configs_to_df use_alias concat_config False
           (s\<lparr>configs := map (\<lambda>(i, c). (i, fold pop_config [''repetition'', ''device''] c))
                             (configs s)\<rparr>))"
  using configs_to_df_store to_df_store configs_to_df_popped [unfolded popped_def]
  by blast

lemma filter_plain:
  "filter_ids_by_configs (Some c) None None [] s =
     (Inr (map fst (filter (\<lambda>(experiment_id, supconfig).
        contains_items (config_dict supconfig) c) (configs s))), s)"
  by (subst filter_ids_by_configs.simps) (simp add: given_def)

text \<open>
  C10. The claim that \<^verbatim>\<open>configs_to_df\<close> with \<^verbatim>\<open>remove_auxilary=True\<close> removes
  \<^verbatim>\<open>repetition\<close> and \<^verbatim>\<open>device\<close> from the stored Configurations fails: after the call
  on a store with one experiment, the stored Configuration still has its three parameters
  (the returned frame has only \<^verbatim>\<open>id\<close> and \<^verbatim>\<open>lr\<close>), and a later
  \<^verbatim>\<open>filter_ids_by_configs(repetition=0)\<close> still finds the experiment.
\<close>

theorem configs_to_df_counterexample:
  "configs (snd (configs_to_df True False True
      (put ''e1'' [(''loss'', [(0, 5)])]
         [\<lparr>p_key = ''lr'', p_value = 1, p_key_alias = ''lr'', p_value_alias = 1\<rparr>,
          \<lparr>p_key = ''repetition'', p_value = 0, p_key_alias = ''repetition'', p_value_alias = 0\<rparr>,
          \<lparr>p_key = ''device'', p_value = 3, p_key_alias = ''device'', p_value_alias = 3::int\<rparr>]
         (init_results ''research'' False)))) =
     [(''e1'', [\<lparr>p_key = ''lr'', p_value = 1, p_key_alias = ''lr'', p_value_alias = 1\<rparr>,
          \<lparr>p_key = ''repetition'', p_value = 0, p_key_alias = ''repetition'', p_value_alias = 0\<rparr>,
          \<lparr>p_key = ''device'', p_value = 3, p_key_alias = ''device'', p_value_alias = 3\<rparr>])] \<and>
   fst (configs_to_df True False True
      (put ''e1'' [(''loss'', [(0, 5)])]
         [\<lparr>p_key = ''lr'', p_value = 1, p_key_alias = ''lr'', p_value_alias = 1\<rparr>,
          \<lparr>p_key = ''repetition'', p_value = 0, p_key_alias = ''repetition'', p_value_alias = 0\<rparr>,
          \<lparr>p_key = ''device'', p_value = 3, p_key_alias = ''device'', p_value_alias = 3::int\<rparr>]
         (init_results ''research'' False))) = Inr [[(''id'', CStr ''e1''), (''lr'', CVal 1)]] \<and>
   fst (filter_ids_by_configs None None None [(''repetition'', 0)]
     (snd (configs_to_df True False True
      (put ''e1'' [(''loss'', [(0, 5)])]
         [\<lparr>p_key = ''lr'', p_value = 1, p_key_alias = ''lr'', p_value_alias = 1\<rparr>,
          \<lparr>p_key = ''repetition'', p_value = 0, p_key_alias = ''repetition'', p_value_alias = 0\<rparr>,
          \<lparr>p_key = ''device'', p_value = 3, p_key_alias = ''device'', p_value_alias = 3::int\<rparr>]
         (init_results ''research'' False))))) = Inr [''e1'']"
  by (simp add: configs_to_df_def put_def init_results_def setitem_def getitem_def Let_def
      pop_config_def alias_dict_def config_dict_def dict_merge_def contains_items_def given_def
      filter_ids_by_configs.simps)

lemma filter_domain_fold:
  "fold (\<lambda>dconfig (acc, s1).
          case acc of
            Inl e \<Rightarrow> (Inl e, s1)
          | Inr filtered_ids \<Rightarrow>
              (case filter_ids_by_configs (Some (config_dict dconfig)) None None [] s1 of
                 (Inl e, s2) \<Rightarrow> (Inl e, s2)
               | (Inr ids, s2) \<Rightarrow> (Inr (filtered_ids @ ids), s2)))
       dconfigs (Inr acc0, s) =
   (Inr (acc0 @ concat (map (\<lambda>dconfig. map fst (filter (\<lambda>(experiment_id, supconfig).
        contains_items (config_dict supconfig) (config_dict dconfig)) (configs s))) dconfigs)), s)"
  by (induction dconfigs arbitrary: acc0) (simp_all add: filter_plain)

lemma filter_rejects:
  "1 < given dmn config alias \<Longrightarrow>
   filter_ids_by_configs config alias dmn kwargs s = (Inl ValueError, s)"
  by (subst filter_ids_by_configs.simps) simp

lemma filter_accepts:
  "given dmn config alias \<le> 1 \<Longrightarrow>
   \<exists>ids. filter_ids_by_configs config alias dmn kwargs s = (Inr ids, s)"
proof -
  assume g: "given dmn config alias \<le> 1"
  show ?thesis
  proof (cases dmn)
    case (Some dconfigs)
    with g show ?thesis
      by (subst filter_ids_by_configs.simps) (simp add: filter_domain_fold)
  next
    case None
    with g show ?thesis
      by (subst filter_ids_by_configs.simps)
         (auto simp: Let_def split: option.splits prod.splits)
  qed
qed

lemma given_more_than_one:
  "(1 < given dmn config alias) =
     ((config \<noteq> None \<and> alias \<noteq> None) \<or> (config \<noteq> None \<and> dmn \<noteq> None) \<or>
      (alias \<noteq> None \<and> dmn \<noteq> None))"
  by (auto simp: given_def)

lemma filter_raises_given:
  "(fst (filter_ids_by_configs config alias dmn kwargs s) = Inl ValueError) =
     (1 < given dmn config alias) \<and>
   (\<exists>ids. fst (filter_ids_by_configs config alias dmn kwargs s) = Inr ids) =
     (\<not> 1 < given dmn config alias) \<and>
   snd (filter_ids_by_configs config alias dmn kwargs s) = s"
proof (cases "1 < given dmn config alias")
  case True
  from filter_rejects [OF True, of kwargs s] True show ?thesis by simp
next
  case False
  then have "given dmn config alias \<le> 1" by simp
  from filter_accepts [OF this, of kwargs s] obtain ids
    where "filter_ids_by_configs config alias dmn kwargs s = (Inr ids, s)" by blast
  with False show ?thesis by simp
qed

text \<open>
  C6. \<^verbatim>\<open>filter_ids_by_configs\<close> raises \<^verbatim>\<open>ValueError\<close> exactly when more than one of
  \<^verbatim>\<open>config\<close>, \<^verbatim>\<open>alias\<close>, \<^verbatim>\<open>domain\<close> is not \<^verbatim>\<open>None\<close>; with one or none of them it
  returns a list of ids; in both cases the store is as before the call.
\<close>

theorem filter_ids_by_configs_raises:
  "(fst (filter_ids_by_configs config alias dmn kwargs s) = Inl ValueError) =
     ((config \<noteq> None \<and> alias \<noteq> None) \<or> (config \<noteq> None \<and> dmn \<noteq> None) \<or>
      (alias \<noteq> None \<and> dmn \<noteq> None)) \<and>
   (\<exists>ids. fst (filter_ids_by_configs config alias dmn kwargs s) = Inr ids) =
     (\<not> ((config \<noteq> None \<and> alias \<noteq> None) \<or> (config \<noteq> None \<and> dmn \<noteq> None) \<or>
      (alias \<noteq> None \<and> dmn \<noteq> None))) \<and>
   snd (filter_ids_by_configs config alias dmn kwargs s) = s"
  using filter_raises_given [of config "alias" dmn kwargs s]
  unfolding given_more_than_one .

lemma map_of_setitem: "map_of (setitem k v d) = (map_of d)(k \<mapsto> v)"
  by (simp add: setitem_def update_conv')

lemma distinct_setitem: "distinct (map fst d) \<Longrightarrow> distinct (map fst (setitem k v d))"
  by (simp add: setitem_def distinct_update)

lemma distinct_dict_merge: "distinct (map fst a) \<Longrightarrow> distinct (map fst (dict_merge a b))"
  unfolding dict_merge_def
  by (induction b arbitrary: a) (auto simp: distinct_setitem)

lemma map_of_dict_merge:
  "distinct (map fst b) \<Longrightarrow> map_of (dict_merge a b) = map_of a ++ map_of b"
  unfolding dict_merge_def
proof (induction b arbitrary: a)
  case Nil
  show ?case by simp
next
  case (Cons p b)
  obtain k v where p: "p = (k, v)" by (cases p)
  from Cons.prems p have nk: "k \<notin> fst ` set b" and d: "distinct (map fst b)" by auto
  have "map_of (fold (\<lambda>(k, v). setitem k v) b (setitem k v a)) = map_of (setitem k v a) ++ map_of b"
    by (rule Cons.IH [OF d])
  also have "\<dots> = map_of a ++ map_of ((k, v) # b)"
  proof -
    have "map_of b k = None" using nk by (simp add: map_of_eq_None_iff)
    then show ?thesis
      by (auto simp: map_of_setitem fun_eq_iff map_add_def split: option.splits)
  qed
  finally have "map_of (fold (\<lambda>(k, v). setitem k v) b (setitem k v a)) =
      map_of a ++ map_of ((k, v) # b)" .
  then show ?case unfolding p by (simp del: map_of.simps)
qed

lemma set_dict_merge:
  assumes "distinct (map fst a)" "distinct (map fst b)"
  shows "set (dict_merge a b) = set b \<union> {item \<in> set a. fst item \<notin> fst ` set b}"
proof (rule set_eqI)
  fix item :: "'a \<times> 'b"
  obtain k v where i: "item = (k, v)" by (cases item)
  have "item \<in> set (dict_merge a b) \<longleftrightarrow> map_of (dict_merge a b) k = Some v"
    using distinct_dict_merge [OF assms(1), of b] by (simp add: i)
  also have "\<dots> \<longleftrightarrow> (map_of a ++ map_of b) k = Some v"
    by (simp add: map_of_dict_merge [OF assms(2)])
  also have "\<dots> \<longleftrightarrow> (k, v) \<in> set b \<or> ((k, v) \<in> set a \<and> k \<notin> fst ` set b)"
    using assms by (auto simp: map_add_Some_iff map_of_eq_None_iff)
  finally show "item \<in> set (dict_merge a b) \<longleftrightarrow> item \<in> set b \<union> {item \<in> set a. fst item \<notin> fst ` set b}"
    by (auto simp: i)
qed

text \<open>
  C7, as the code has it. With a \<^verbatim>\<open>config\<close> mapping and keyword filters,
  \<^verbatim>\<open>filter_ids_by_configs\<close> returns, in the store's order, the ids whose Configuration
  contains every keyword filter and every item of \<^verbatim>\<open>config\<close> whose key is not also a
  keyword: \<^verbatim>\<open>{**config, **kwargs}\<close> lets the keyword replace the \<^verbatim>\<open>config\<close> item of
  the same key. With no argument at all it returns every stored id.
\<close>

theorem filter_ids_by_configs_merged:
  assumes "distinct (map fst config)" and "distinct (map fst kwargs)"
  shows "filter_ids_by_configs (Some config) None None kwargs s =
      (Inr (map fst (filter (\<lambda>(experiment_id, supconfig).
          list_all (\<lambda>item. item \<in> set (config_dict supconfig)) kwargs \<and>
          list_all (\<lambda>item. fst item \<in> fst ` set kwargs \<or> item \<in> set (config_dict supconfig)) config)
        (configs s))), s) \<and>
    filter_ids_by_configs None None None [] s = (Inr (map fst (configs s)), s)"
proof -
  have c: "contains_items sup (dict_merge config kwargs) =
      (list_all (\<lambda>item. item \<in> set sup) kwargs \<and>
       list_all (\<lambda>item. fst item \<in> fst ` set kwargs \<or> item \<in> set sup) config)" for sup
    unfolding contains_items_def list_all_iff set_dict_merge [OF assms] by auto
  have m: "dict_merge config [] = config" by (simp add: dict_merge_def)
  have 1: "filter_ids_by_configs (Some config) None None kwargs s =
      (Inr (map fst (filter (\<lambda>(experiment_id, supconfig).
          contains_items (config_dict supconfig) (dict_merge config kwargs)) (configs s))), s)"
    by (subst filter_ids_by_configs.simps) (simp add: given_def m)
  have 2: "filter_ids_by_configs None None None [] s = (Inr (map fst (configs s)), s)"
    by (subst filter_ids_by_configs.simps) (simp add: given_def)
  show ?thesis unfolding 1 2 c by simp
qed

lemmas eval_defs = two_runs_def put_def init_results_def setitem_def getitem_def Let_def
      pop_config_def alias_dict_def config_dict_def dict_merge_def contains_items_def given_def

theorem filter_ids_by_configs_merged_witness:
  "distinct (map fst [(''lr'', 1::int)]) \<and> distinct (map fst [(''repetition'', 0::int)]) \<and>
   filter_ids_by_configs (Some [(''lr'', 1)]) None None [(''repetition'', 0)] two_runs =
     (Inr [''e1''], two_runs) \<and>
   filter_ids_by_configs None None None [] two_runs = (Inr [''e1'', ''e2''], two_runs)"
proof -
  have d: "distinct (map fst [(''lr'', 1::int)])" "distinct (map fst [(''repetition'', 0::int)])"
    by simp_all
  from filter_ids_by_configs_merged [OF d, of two_runs] d show ?thesis
    by (simp add: eval_defs)
qed

text \<open>
  C7. The claim that the ids returned are those whose Configuration contains the union of
  \<^verbatim>\<open>config\<close> and the keyword filters fails where the two give one key different values:
  \<^verbatim>\<open>filter_ids_by_configs(config={'lr': 2}, lr=1)\<close> returns both experiments of
  \<open>two_runs\<close>, and neither has \<^verbatim>\<open>lr = 2\<close>.
\<close>

theorem filter_ids_by_configs_override_counterexample:
  "fst (filter_ids_by_configs (Some [(''lr'', 2)]) None None [(''lr'', 1)] two_runs) =
     Inr [''e1'', ''e2''] \<and>
   map (\<lambda>(experiment_id, supconfig). (''lr'', 2) \<in> set (config_dict supconfig)) (configs two_runs) =
     [False, False]"
  by (simp add: eval_defs filter_ids_by_configs.simps)

text \<open>
  C8. \<^verbatim>\<open>run\<close> on a Domain of unknown size with no update function: the module never
  imports \<^verbatim>\<open>warnings\<close>, so line 253 raises \<^verbatim>\<open>NameError\<close> where the claim expects a
  warning and a normal run.
\<close>

theorem run_unbounded_domain_name_error:
  "run_start False [''research'']
     \<lparr>domain_size = None, update_func = (None :: unit option), update_each = Every 1\<rparr>
     \<lparr>dirs = {}, files = {}\<rparr> =
   (Inl NameError, \<lparr>dirs = {}, files = {}\<rparr>)"
  by (simp add: run_start_def attach_env_meta_def load_global_def module_globals_def)

subsection \<open>The research folder\<close>

lemma take_snoc_le: "n \<le> length p \<Longrightarrow> take n (p @ [x]) = take n p"
  by simp



lemma path_prefixes_Nil: "path_prefixes [] = []"
  by (simp add: path_prefixes_def)


















text \<open>The empty name: \<^verbatim>\<open>os.makedirs('')\<close> raises, and nothing is created.\<close>

lemma create_research_folder_empty_name:
  "create_research_folder [] fs = (Inl FileNotFoundError, fs) \<and>
   run_start True [] d fs = (Inl FileNotFoundError, fs)"
proof -
  have m: "makedirs [] fs = (Inl FileNotFoundError, fs)"
    by (subst makedirs.simps) (simp add: mkdir_def)
  then have c: "create_research_folder [] fs = (Inl FileNotFoundError, fs)"
    by (simp add: create_research_folder_def path_exists_def)
  then show ?thesis by (simp add: run_start_def)
qed

subsection \<open>Putting results and reading them back\<close>

















































lemma joins_on_id_inner_join: "joins_on_id inner_join"
  by (simp add: joins_on_id_def)




end
